theory Spec2Isabelle
  imports Complex_Main
begin

section \<open>Relay control over a GPIO pin: the two command-line scripts\<close>

text \<open>
  The repository holds two scripts, \<^verbatim>\<open>examples/relay_control.py\<close> (the cycle driver) and
  \<^verbatim>\<open>examples/relay_switch.py\<close> (the one-shot driver). Each parses its command line, sets up
  board pin 7 as an output, drives it, and releases it in a \<^verbatim>\<open>finally\<close> block.

  The GPIO driver is an external collaborator. It is modelled as a recording driver: every
  call the script makes is appended to a trace of events, and every call succeeds.
  \<^verbatim>\<open>time.sleep\<close> is the only blocking call; what happens while the script sleeps is chosen
  by the environment, given as the list of the outcomes of the successive sleeps.
  \<^verbatim>\<open>print\<close> is not recorded.
\<close>

subsection \<open>Levels, events and the environment\<close>

datatype level = HIGH | LOW

text \<open>
  The values of \<^verbatim>\<open>type=float\<close> arguments. Only their comparisons with zero are used by the
  scripts; a Python float is a finite number, an infinity or a NaN.
\<close>

datatype pyfloat = Finite real | PosInf | NegInf | NaN

fun float_gt_zero :: "pyfloat \<Rightarrow> bool" where
  "float_gt_zero (Finite r) = (0 < r)"
| "float_gt_zero PosInf = True"
| "float_gt_zero NegInf = False"
| "float_gt_zero NaN = False"

fun float_eq_zero :: "pyfloat \<Rightarrow> bool" where
  "float_eq_zero (Finite r) = (r = 0)"
| "float_eq_zero PosInf = False"
| "float_eq_zero NegInf = False"
| "float_eq_zero NaN = False"

fun float_lt_zero :: "pyfloat \<Rightarrow> bool" where
  "float_lt_zero (Finite r) = (r < 0)"
| "float_lt_zero PosInf = False"
| "float_lt_zero NegInf = True"
| "float_lt_zero NaN = False"

text \<open>
  The calls a script makes, in the order it makes them: \<^verbatim>\<open>GPIO.setmode(GPIO.BOARD)\<close>,
  \<^verbatim>\<open>GPIO.setup(pin, GPIO.OUT[, initial=level])\<close>, \<^verbatim>\<open>GPIO.output(pin, level)\<close>,
  \<^verbatim>\<open>time.sleep(seconds)\<close> and \<^verbatim>\<open>GPIO.cleanup()\<close>.
\<close>

datatype event =
    SetMode
  | Setup nat "level option"
  | Output nat level
  | Sleep pyfloat
  | Cleanup

text \<open>
  One sleep either returns, is interrupted by the user (\<^verbatim>\<open>KeyboardInterrupt\<close>), or raises
  another exception (as \<^verbatim>\<open>time.sleep\<close> does for a length it does not accept).
\<close>

datatype sleep_outcome = Wakes | Interrupted | Fails

datatype exc = KeyboardInterrupt | SleepError

text \<open>
  How control leaves a block of statements: it falls off its end, an exception propagates,
  or the environment's list ends while the script is still asleep.
\<close>

datatype flow = Normal | Raise exc | Blocked

fun sleep :: "sleep_outcome list \<Rightarrow> flow + sleep_outcome list" where
  "sleep [] = Inl Blocked"
| "sleep (Wakes # env) = Inr env"
| "sleep (Interrupted # env) = Inl (Raise KeyboardInterrupt)"
| "sleep (Fails # env) = Inl (Raise SleepError)"

text \<open>How a run of a script ends, and the exit status of the process.\<close>

datatype parse_exit = HelpExit | UsageError

datatype outcome = Running | Completed | StoppedByUser | Crashed | ArgExit parse_exit

fun exit_status :: "outcome \<Rightarrow> int option" where
  "exit_status Running = None"
| "exit_status Completed = Some 0"
| "exit_status StoppedByUser = Some 0"
| "exit_status Crashed = Some 1"
| "exit_status (ArgExit HelpExit) = Some 0"
| "exit_status (ArgExit UsageError) = Some 2"

text \<open>
  Both scripts wrap their work in \<^verbatim>\<open>try: ... except KeyboardInterrupt: print(...) finally: ...\<close>.
  The \<^verbatim>\<open>finally\<close> block runs however the \<^verbatim>\<open>try\<close> block is left; \<^verbatim>\<open>KeyboardInterrupt\<close>
  is caught and the script returns normally, any other exception propagates after the
  \<^verbatim>\<open>finally\<close> block and ends the process with a traceback.
\<close>

fun try_finally :: "event list \<times> flow \<Rightarrow> event list \<Rightarrow> event list \<times> outcome" where
  "try_finally (body, Blocked) final = (body, Running)"
| "try_finally (body, Normal) final = (body @ final, Completed)"
| "try_finally (body, Raise KeyboardInterrupt) final = (body @ final, StoppedByUser)"
| "try_finally (body, Raise SleepError) final = (body @ final, Crashed)"

definition relay_pin :: nat where
  "relay_pin = 7"

subsection \<open>relay_control.py\<close>

record control_args =
  on_time :: pyfloat
  off_time :: pyfloat
  cycles :: int
  initial_state :: string
  active_high :: bool

text \<open>Lines 46 to 51: the pair \<open>(RELAY_ON, RELAY_OFF)\<close>.\<close>

definition control_relay_levels :: "bool \<Rightarrow> level \<times> level" where
  "control_relay_levels ah = (if ah then (HIGH, LOW) else (LOW, HIGH))"

text \<open>Line 57: \<^verbatim>\<open>RELAY_ON if args.initial_state == 'on' else RELAY_OFF\<close>.\<close>

definition control_level :: "string \<Rightarrow> bool \<Rightarrow> level" where
  "control_level st ah =
     (let (RELAY_ON, RELAY_OFF) = control_relay_levels ah
      in if st = ''on'' then RELAY_ON else RELAY_OFF)"

text \<open>Line 70, the loop condition, and lines 81 and 82, the counter.\<close>

definition loop_condition :: "int \<Rightarrow> int \<Rightarrow> bool" where
  "loop_condition n cycle_count = (n = 0 \<or> cycle_count < n)"

definition count_cycle :: "int \<Rightarrow> int \<Rightarrow> int" where
  "count_cycle n cycle_count = (if n > 0 then cycle_count + 1 else cycle_count)"

text \<open>Lines 70 to 83: the \<^verbatim>\<open>while\<close> loop, from a given value of the counter.\<close>

function cycle_loop ::
  "control_args \<Rightarrow> level \<Rightarrow> level \<Rightarrow> int \<Rightarrow> sleep_outcome list \<Rightarrow> event list \<times> flow" where
  "cycle_loop a RELAY_ON RELAY_OFF cycle_count env =
     (if loop_condition (cycles a) cycle_count then
        (case sleep env of
           Inl x \<Rightarrow> ([Output relay_pin RELAY_ON, Sleep (on_time a)], x)
         | Inr env1 \<Rightarrow>
            (case sleep env1 of
               Inl x \<Rightarrow>
                 ([Output relay_pin RELAY_ON, Sleep (on_time a),
                   Output relay_pin RELAY_OFF, Sleep (off_time a)], x)
             | Inr env2 \<Rightarrow>
                 (let (tr, x) = cycle_loop a RELAY_ON RELAY_OFF
                                  (count_cycle (cycles a) cycle_count) env2
                  in ([Output relay_pin RELAY_ON, Sleep (on_time a),
                       Output relay_pin RELAY_OFF, Sleep (off_time a)] @ tr, x))))
      else ([], Normal))"
  by pat_completeness auto
termination
  by (relation "measure (\<lambda>(a, RELAY_ON, RELAY_OFF, cycle_count, env). length env)")
     (auto elim!: sleep.elims)

text \<open>Lines 53 to 92: \<^verbatim>\<open>main\<close> after the arguments are parsed.\<close>

definition relay_control_run :: "control_args \<Rightarrow> sleep_outcome list \<Rightarrow> event list \<times> outcome" where
  "relay_control_run a env =
     (let (RELAY_ON, RELAY_OFF) = control_relay_levels (active_high a);
          initial = (if initial_state a = ''on'' then RELAY_ON else RELAY_OFF);
          (tr, oc) = try_finally (cycle_loop a RELAY_ON RELAY_OFF 0 env)
                       [Output relay_pin RELAY_OFF, Cleanup]
      in ([SetMode, Setup relay_pin (Some initial)] @ tr, oc))"

subsection \<open>relay_switch.py\<close>

record switch_args =
  state :: "string option"
  sw_active_high :: bool
  hold_time :: pyfloat

text \<open>Lines 45 to 50: the pair \<open>(RELAY_ON, RELAY_OFF)\<close>.\<close>

definition switch_relay_levels :: "bool \<Rightarrow> level \<times> level" where
  "switch_relay_levels ah = (if ah then (HIGH, LOW) else (LOW, HIGH))"

text \<open>Lines 57 to 62: the level written for \<^verbatim>\<open>args.state\<close>.\<close>

definition switch_level :: "string option \<Rightarrow> bool \<Rightarrow> level" where
  "switch_level st ah =
     (let (RELAY_ON, RELAY_OFF) = switch_relay_levels ah
      in if st = Some ''on'' then RELAY_ON else RELAY_OFF)"

text \<open>Lines 69 and 70: \<^verbatim>\<open>while True: time.sleep(1)\<close>.\<close>

fun hold_forever :: "sleep_outcome list \<Rightarrow> event list \<times> flow" where
  "hold_forever [] = ([Sleep (Finite 1)], Blocked)"
| "hold_forever (Wakes # env) = (let (tr, x) = hold_forever env in (Sleep (Finite 1) # tr, x))"
| "hold_forever (Interrupted # env) = ([Sleep (Finite 1)], Raise KeyboardInterrupt)"
| "hold_forever (Fails # env) = ([Sleep (Finite 1)], Raise SleepError)"

text \<open>Lines 57 to 70: the body of the \<^verbatim>\<open>try\<close> block, the write and then the hold.\<close>

definition hold :: "pyfloat \<Rightarrow> sleep_outcome list \<Rightarrow> event list \<times> flow" where
  "hold t env =
     (if float_gt_zero t then
        (case sleep env of
           Inl x \<Rightarrow> ([Sleep t], x)
         | Inr env1 \<Rightarrow> ([Sleep t], Normal))
      else if float_eq_zero t then hold_forever env
      else ([], Normal))"

definition set_and_hold ::
  "switch_args \<Rightarrow> level \<Rightarrow> level \<Rightarrow> sleep_outcome list \<Rightarrow> event list \<times> flow" where
  "set_and_hold a RELAY_ON RELAY_OFF env =
     (let write = (if state a = Some ''on'' then [Output relay_pin RELAY_ON]
                   else [Output relay_pin RELAY_OFF]);
          (held, x) = hold (hold_time a) env
      in (write @ held, x))"

text \<open>Lines 52 to 78: \<^verbatim>\<open>main\<close> after the arguments are parsed.\<close>

definition relay_switch_run :: "switch_args \<Rightarrow> sleep_outcome list \<Rightarrow> event list \<times> outcome" where
  "relay_switch_run a env =
     (let (RELAY_ON, RELAY_OFF) = switch_relay_levels (sw_active_high a);
          (tr, oc) = try_finally (set_and_hold a RELAY_ON RELAY_OFF env) [Cleanup]
      in ([SetMode, Setup relay_pin None] @ tr, oc))"

subsection \<open>Command lines: the argument parser\<close>

text \<open>
  Both scripts build an \<^verbatim>\<open>argparse.ArgumentParser\<close> and call \<^verbatim>\<open>parse_args()\<close> before any
  GPIO call. The parser is library code; what follows models \<^verbatim>\<open>parse_args\<close> as CPython
  3.11 implements it, for parsers such as the two of this repository: options that take
  no value (\<^verbatim>\<open>store_true\<close>, \<^verbatim>\<open>store_false\<close>, \<^verbatim>\<open>help\<close>) or exactly one, at most one
  positional argument, and \<^verbatim>\<open>-h\<close> as the only single-dash option. Argument strings are
  taken to be ASCII. \<^verbatim>\<open>parse_args\<close> ends the process on an error (usage message, exit status
  2) and on \<^verbatim>\<open>-h\<close> (help text, exit status 0); both are the \<open>Inl\<close> results here.

  The conversions \<^verbatim>\<open>float\<close> and \<^verbatim>\<open>int\<close> of \<^verbatim>\<open>type=float\<close> and \<^verbatim>\<open>type=int\<close> are built-ins
  of the language and are parameters of the model; \<open>None\<close> stands for \<^verbatim>\<open>ValueError\<close>.
\<close>

record builtins =
  py_float :: "string \<Rightarrow> pyfloat option"
  py_int :: "string \<Rightarrow> int option"

text \<open>
  \<^verbatim>\<open>parse_args\<close> first classifies every argument string: as an argument (\<open>Arg\<close>), as the
  first \<^verbatim>\<open>--\<close>, as an option of the parser with the option string matched and the explicit
  argument if the string carries one (after \<^verbatim>\<open>=\<close>, or glued to a single-dash option), or
  as an option the parser does not have (\<open>Unknown\<close>).
\<close>

datatype 'o tok =
    Arg string
  | DashDash
  | Opt 'o string "(bool \<times> string) option"
  | Unknown string

text \<open>
  A parser: its option strings with their actions in the order of registration, which
  actions take a value, what an action does to the namespace, the positional argument if
  there is one, and the namespace of the defaults.
\<close>

record ('o, 'ns) parser =
  options :: "(string \<times> 'o) list"
  takes_value :: "'o \<Rightarrow> bool"
  optional_action :: "'o \<Rightarrow> string option \<Rightarrow> 'ns \<Rightarrow> parse_exit + 'ns"
  positional :: "(string \<Rightarrow> 'ns \<Rightarrow> parse_exit + 'ns) option"
  defaults :: 'ns

text \<open>\<^verbatim>\<open>str.partition('=')\<close>, \<^verbatim>\<open>str.startswith\<close>, and the pattern \<^verbatim>\<open>^-\d+$|^-\d*\.\d+$\<close>.\<close>

definition partition_eq :: "string \<Rightarrow> string \<times> bool \<times> string" where
  "partition_eq s =
     (takeWhile (\<lambda>c. c \<noteq> CHR ''='') s, CHR ''='' \<in> set s,
      drop 1 (dropWhile (\<lambda>c. c \<noteq> CHR ''='') s))"

definition starts_with :: "string \<Rightarrow> string \<Rightarrow> bool" where
  "starts_with s p = (take (length p) s = p)"

definition is_digit :: "char \<Rightarrow> bool" where
  "is_digit c = (c \<in> set ''0123456789'')"

definition looks_negative :: "string \<Rightarrow> bool" where
  "looks_negative s =
     (case s of
        [] \<Rightarrow> False
      | c # r \<Rightarrow>
          (let body = (if r \<noteq> [] \<and> last r = CHR 0x0A then butlast r else r);
               rest = dropWhile is_digit body
           in c = CHR ''-'' \<and>
              ((body \<noteq> [] \<and> rest = []) \<or>
               (case rest of
                  [] \<Rightarrow> False
                | d # ds \<Rightarrow> d = CHR ''.'' \<and> ds \<noteq> [] \<and> list_all is_digit ds))))"

text \<open>\<^verbatim>\<open>_get_option_tuples\<close>: the options an abbreviated option string could stand for.\<close>

definition option_tuples :: "(string \<times> 'o) list \<Rightarrow> string \<Rightarrow> 'o tok list" where
  "option_tuples tbl s =
     (if take 2 s = ''--'' then
        (let (option_prefix, sep, explicit_arg) = partition_eq s
         in concat (map (\<lambda>(option_string, action).
                      if starts_with option_string option_prefix
                      then [Opt action option_string
                              (if sep then Some (True, explicit_arg) else None)]
                      else []) tbl))
      else
        concat (map (\<lambda>(option_string, action).
                  if option_string = take 2 s
                  then [Opt action option_string (Some (False, drop 2 s))]
                  else if starts_with option_string s
                  then [Opt action option_string None]
                  else []) tbl))"

text \<open>
  \<^verbatim>\<open>_parse_optional\<close>: one argument string. An ambiguous abbreviation is an error at once.
\<close>

definition parse_optional :: "(string \<times> 'o) list \<Rightarrow> string \<Rightarrow> parse_exit + 'o tok" where
  "parse_optional tbl s =
     (if s = [] then Inr (Arg s)
      else if hd s \<noteq> CHR ''-'' then Inr (Arg s)
      else
        (case map_of tbl s of
           Some action \<Rightarrow> Inr (Opt action s None)
         | None \<Rightarrow>
            if length s = 1 then Inr (Arg s)
            else
              (let (option_string, sep, explicit_arg) = partition_eq s
               in case (if sep then map_of tbl option_string else None) of
                    Some action \<Rightarrow> Inr (Opt action option_string (Some (True, explicit_arg)))
                  | None \<Rightarrow>
                     (case option_tuples tbl s of
                        [] \<Rightarrow>
                          if looks_negative s then Inr (Arg s)
                          else if CHR '' '' \<in> set s then Inr (Arg s)
                          else Inr (Unknown s)
                      | [t] \<Rightarrow> Inr t
                      | t # u # ts \<Rightarrow> Inl UsageError))))"

text \<open>After the first \<^verbatim>\<open>--\<close> every string is an argument.\<close>

fun classify :: "(string \<times> 'o) list \<Rightarrow> string list \<Rightarrow> parse_exit + 'o tok list" where
  "classify tbl [] = Inr []"
| "classify tbl (s # ss) =
     (if s = ''--'' then Inr (DashDash # map Arg ss)
      else
        (case parse_optional tbl s of
           Inl e \<Rightarrow> Inl e
         | Inr t \<Rightarrow>
            (case classify tbl ss of
               Inl e \<Rightarrow> Inl e
             | Inr ts \<Rightarrow> Inr (t # ts))))"

text \<open>
  A single-dash flag with an explicit argument: the argument is read as further single-dash
  flags. The result is the flags to take, in order, and the strings left unrecognised.
\<close>

fun cluster ::
  "(string \<times> 'o) list \<Rightarrow> 'o \<Rightarrow> bool \<Rightarrow> string \<Rightarrow> parse_exit + ('o list \<times> string list)" where
  "cluster tbl action sep [] = Inl UsageError"
| "cluster tbl action sep (c # cs) =
     (if sep \<or> c = CHR ''-'' then Inl UsageError
      else
        (case map_of tbl [CHR ''-'', c] of
           None \<Rightarrow> Inr ([action], [CHR ''-'' # c # cs])
         | Some action' \<Rightarrow>
            (case cs of
               [] \<Rightarrow> Inr ([action, action'], [])
             | d # ds \<Rightarrow>
                (case (if d = CHR ''='' then cluster tbl action' True ds
                       else cluster tbl action' False cs) of
                   Inl e \<Rightarrow> Inl e
                 | Inr (actions, extras) \<Rightarrow> Inr (action # actions, extras)))))"

fun take_flags :: "('o, 'ns) parser \<Rightarrow> 'o list \<Rightarrow> 'ns \<Rightarrow> parse_exit + 'ns" where
  "take_flags P [] ns = Inr ns"
| "take_flags P (action # actions) ns =
     (case optional_action P action None ns of
        Inl e \<Rightarrow> Inl e
      | Inr ns' \<Rightarrow> take_flags P actions ns')"

definition single_dash :: "string \<Rightarrow> bool" where
  "single_dash option_string = (take 1 (drop 1 option_string) \<noteq> ''-'')"

text \<open>
  Consuming the classified strings from left to right. An option that takes a value takes
  its explicit argument or the next string if that is an argument; the positional takes
  the first argument not taken by an option, with an adjacent \<^verbatim>\<open>--\<close>; what nothing takes
  is collected in \<open>extras\<close>. At the end a positional that was not given is an error, and
  so are extras.
\<close>

fun consume ::
  "('o, 'ns) parser \<Rightarrow> 'o tok list \<Rightarrow> (string \<Rightarrow> 'ns \<Rightarrow> parse_exit + 'ns) option \<Rightarrow> 'ns \<Rightarrow>
   string list \<Rightarrow> parse_exit + 'ns" where
  "consume P [] pos ns extras =
     (if pos \<noteq> None then Inl UsageError
      else if extras \<noteq> [] then Inl UsageError
      else Inr ns)"
| "consume P (Unknown s # ts) pos ns extras = consume P ts pos ns (extras @ [s])"
| "consume P (Opt action option_string None # ts) pos ns extras =
     (if takes_value P action then
        (case ts of
           Arg v # ts' \<Rightarrow>
             (case optional_action P action (Some v) ns of
                Inl e \<Rightarrow> Inl e
              | Inr ns' \<Rightarrow> consume P ts' pos ns' extras)
         | _ \<Rightarrow> Inl UsageError)
      else
        (case optional_action P action None ns of
           Inl e \<Rightarrow> Inl e
         | Inr ns' \<Rightarrow> consume P ts pos ns' extras))"
| "consume P (Opt action option_string (Some (sep, explicit_arg)) # ts) pos ns extras =
     (if takes_value P action then
        (case optional_action P action (Some explicit_arg) ns of
           Inl e \<Rightarrow> Inl e
         | Inr ns' \<Rightarrow> consume P ts pos ns' extras)
      else if single_dash option_string then
        (case cluster (options P) action sep explicit_arg of
           Inl e \<Rightarrow> Inl e
         | Inr (actions, unmatched) \<Rightarrow>
            (case take_flags P actions ns of
               Inl e \<Rightarrow> Inl e
             | Inr ns' \<Rightarrow> consume P ts pos ns' (extras @ unmatched)))
      else Inl UsageError)"
| "consume P (Arg v # DashDash # ts) (Some f) ns extras =
     (case f v ns of
        Inl e \<Rightarrow> Inl e
      | Inr ns' \<Rightarrow> consume P ts None ns' extras)"
| "consume P (Arg v # ts) (Some f) ns extras =
     (case f v ns of
        Inl e \<Rightarrow> Inl e
      | Inr ns' \<Rightarrow> consume P ts None ns' extras)"
| "consume P (Arg v # ts) None ns extras = consume P ts None ns (extras @ [v])"
| "consume P (DashDash # Arg v # ts) (Some f) ns extras =
     (case f v ns of
        Inl e \<Rightarrow> Inl e
      | Inr ns' \<Rightarrow> consume P ts None ns' extras)"
| "consume P (DashDash # ts) pos ns extras = consume P ts pos ns (extras @ [''--''])"

definition parse_args :: "('o, 'ns) parser \<Rightarrow> string list \<Rightarrow> parse_exit + 'ns" where
  "parse_args P argv =
     (case classify (options P) argv of
        Inl e \<Rightarrow> Inl e
      | Inr ts \<Rightarrow> consume P ts (positional P) (defaults P) [])"

subsection \<open>relay_control.py: the command line and \<^verbatim>\<open>main\<close>\<close>

text \<open>
  Lines 31 to 41. \<^verbatim>\<open>-h\<close> and \<^verbatim>\<open>--help\<close> are added by \<^verbatim>\<open>ArgumentParser\<close> itself.
  \<^verbatim>\<open>--initial-state\<close> has \<^verbatim>\<open>choices=['on', 'off']\<close>.
\<close>

datatype control_opt =
  CHelp | COnTime | COffTime | CCycles | CInitialState | CActiveHigh | CActiveLow

definition control_options :: "(string \<times> control_opt) list" where
  "control_options =
     [(''-h'', CHelp), (''--help'', CHelp),
      (''--on-time'', COnTime), (''--off-time'', COffTime), (''--cycles'', CCycles),
      (''--initial-state'', CInitialState),
      (''--active-high'', CActiveHigh), (''--active-low'', CActiveLow)]"

fun control_takes_value :: "control_opt \<Rightarrow> bool" where
  "control_takes_value COnTime = True"
| "control_takes_value COffTime = True"
| "control_takes_value CCycles = True"
| "control_takes_value CInitialState = True"
| "control_takes_value _ = False"

fun control_action ::
  "builtins \<Rightarrow> control_opt \<Rightarrow> string option \<Rightarrow> control_args \<Rightarrow> parse_exit + control_args" where
  "control_action B CHelp v ns = Inl HelpExit"
| "control_action B CActiveHigh v ns = Inr (ns\<lparr>active_high := True\<rparr>)"
| "control_action B CActiveLow v ns = Inr (ns\<lparr>active_high := False\<rparr>)"
| "control_action B COnTime (Some v) ns =
     (case py_float B v of None \<Rightarrow> Inl UsageError | Some t \<Rightarrow> Inr (ns\<lparr>on_time := t\<rparr>))"
| "control_action B COffTime (Some v) ns =
     (case py_float B v of None \<Rightarrow> Inl UsageError | Some t \<Rightarrow> Inr (ns\<lparr>off_time := t\<rparr>))"
| "control_action B CCycles (Some v) ns =
     (case py_int B v of None \<Rightarrow> Inl UsageError | Some n \<Rightarrow> Inr (ns\<lparr>cycles := n\<rparr>))"
| "control_action B CInitialState (Some v) ns =
     (if v \<in> set [''on'', ''off''] then Inr (ns\<lparr>initial_state := v\<rparr>) else Inl UsageError)"
| "control_action B _ None ns = Inl UsageError"

definition control_parser :: "builtins \<Rightarrow> (control_opt, control_args) parser" where
  "control_parser B =
     \<lparr>options = control_options, takes_value = control_takes_value,
      optional_action = control_action B, positional = None,
      defaults = \<lparr>on_time = Finite 2, off_time = Finite 2, cycles = 0,
                  initial_state = ''off'', active_high = True\<rparr>\<rparr>"

text \<open>Lines 29 to 92: \<^verbatim>\<open>main\<close>. Nothing precedes \<^verbatim>\<open>parse_args()\<close> but the parser's set-up.\<close>

definition relay_control_main ::
  "builtins \<Rightarrow> string list \<Rightarrow> sleep_outcome list \<Rightarrow> event list \<times> outcome" where
  "relay_control_main B argv env =
     (case parse_args (control_parser B) argv of
        Inl e \<Rightarrow> ([], ArgExit e)
      | Inr a \<Rightarrow> relay_control_run a env)"

subsection \<open>relay_switch.py: the command line and \<^verbatim>\<open>main\<close>\<close>

text \<open>
  Lines 32 to 40. The positional \<^verbatim>\<open>state\<close> has \<^verbatim>\<open>choices=['on', 'off']\<close>; its default, before
  it is given, is \<^verbatim>\<open>None\<close>.
\<close>

datatype switch_opt = SHelp | SActiveHigh | SActiveLow | SHoldTime

definition switch_options :: "(string \<times> switch_opt) list" where
  "switch_options =
     [(''-h'', SHelp), (''--help'', SHelp),
      (''--active-high'', SActiveHigh), (''--active-low'', SActiveLow),
      (''--hold-time'', SHoldTime)]"

fun switch_takes_value :: "switch_opt \<Rightarrow> bool" where
  "switch_takes_value SHoldTime = True"
| "switch_takes_value _ = False"

fun switch_action ::
  "builtins \<Rightarrow> switch_opt \<Rightarrow> string option \<Rightarrow> switch_args \<Rightarrow> parse_exit + switch_args" where
  "switch_action B SHelp v ns = Inl HelpExit"
| "switch_action B SActiveHigh v ns = Inr (ns\<lparr>sw_active_high := True\<rparr>)"
| "switch_action B SActiveLow v ns = Inr (ns\<lparr>sw_active_high := False\<rparr>)"
| "switch_action B SHoldTime (Some v) ns =
     (case py_float B v of None \<Rightarrow> Inl UsageError | Some t \<Rightarrow> Inr (ns\<lparr>hold_time := t\<rparr>))"
| "switch_action B SHoldTime None ns = Inl UsageError"

definition state_action :: "string \<Rightarrow> switch_args \<Rightarrow> parse_exit + switch_args" where
  "state_action v ns =
     (if v \<in> set [''on'', ''off''] then Inr (ns\<lparr>state := Some v\<rparr>) else Inl UsageError)"

definition switch_parser :: "builtins \<Rightarrow> (switch_opt, switch_args) parser" where
  "switch_parser B =
     \<lparr>options = switch_options, takes_value = switch_takes_value,
      optional_action = switch_action B, positional = Some state_action,
      defaults = \<lparr>state = None, sw_active_high = True, hold_time = Finite 0\<rparr>\<rparr>"

text \<open>Lines 30 to 78: \<^verbatim>\<open>main\<close>.\<close>

definition relay_switch_main ::
  "builtins \<Rightarrow> string list \<Rightarrow> sleep_outcome list \<Rightarrow> event list \<times> outcome" where
  "relay_switch_main B argv env =
     (case parse_args (switch_parser B) argv of
        Inl e \<Rightarrow> ([], ArgExit e)
      | Inr a \<Rightarrow> relay_switch_run a env)"

subsection \<open>The data model of the specification\<close>

text \<open>
  The specification names the logical state and the polarity as enumerations; the scripts
  hold them as the strings \<^verbatim>\<open>'on'\<close> and \<^verbatim>\<open>'off'\<close> and as the boolean \<^verbatim>\<open>active_high\<close>.
  \<open>spec_resolve\<close> follows the words of the specification: On is High if ActiveHigh else
  Low, Off is the complement.
\<close>

datatype LogicalState = On | Off
datatype Polarity = ActiveHigh | ActiveLow

fun state_name :: "LogicalState \<Rightarrow> string" where
  "state_name On = ''on''"
| "state_name Off = ''off''"

fun is_active_high :: "Polarity \<Rightarrow> bool" where
  "is_active_high ActiveHigh = True"
| "is_active_high ActiveLow = False"

fun complement :: "level \<Rightarrow> level" where
  "complement HIGH = LOW"
| "complement LOW = HIGH"

definition spec_on_level :: "Polarity \<Rightarrow> level" where
  "spec_on_level p = (case p of ActiveHigh \<Rightarrow> HIGH | ActiveLow \<Rightarrow> LOW)"

definition spec_resolve :: "LogicalState \<Rightarrow> Polarity \<Rightarrow> level" where
  "spec_resolve s p = (case s of On \<Rightarrow> spec_on_level p | Off \<Rightarrow> complement (spec_on_level p))"

subsection \<open>Observations on a trace\<close>

text \<open>
  The levels written, in order; the part of a trace before the pin is released; the last
  level written there; how often the pin is released.
\<close>

fun writes :: "event list \<Rightarrow> level list" where
  "writes [] = []"
| "writes (Output p l # es) = l # writes es"
| "writes (e # es) = writes es"

fun is_sleep :: "event \<Rightarrow> bool" where
  "is_sleep (Sleep d) = True"
| "is_sleep e = False"

definition before_release :: "event list \<Rightarrow> event list" where
  "before_release tr = takeWhile (\<lambda>e. e \<noteq> Cleanup) tr"

definition final_write :: "event list \<Rightarrow> level option" where
  "final_write tr = (case rev (writes (before_release tr)) of [] \<Rightarrow> None | l # ls \<Rightarrow> Some l)"

definition cleanup_count :: "event list \<Rightarrow> nat" where
  "cleanup_count tr = length (filter (\<lambda>e. e = Cleanup) tr)"

definition cycle_events :: "control_args \<Rightarrow> event list" where
  "cycle_events a =
     [Output relay_pin (control_level ''on'' (active_high a)), Sleep (on_time a),
      Output relay_pin (control_level ''off'' (active_high a)), Sleep (off_time a)]"


subsection \<open>Invalid command lines\<close>

text \<open>
  An unknown flag is an argument string, before any \<^verbatim>\<open>--\<close>, that the parser classifies as
  an option it does not have. The state value of a \<^verbatim>\<open>relay_switch.py\<close> command line is its
  operand, the first argument that no option takes; the state values of a
  \<^verbatim>\<open>relay_control.py\<close> command line are the values given to \<^verbatim>\<open>--initial-state\<close>. A state
  value is invalid when it is neither \<^verbatim>\<open>on\<close> nor \<^verbatim>\<open>off\<close>.
\<close>

definition unknown_flag :: "(string \<times> 'o) list \<Rightarrow> string \<Rightarrow> bool" where
  "unknown_flag tbl s = (case parse_optional tbl s of Inr (Unknown u) \<Rightarrow> True | _ \<Rightarrow> False)"

definition has_unknown_flag :: "(string \<times> 'o) list \<Rightarrow> string list \<Rightarrow> bool" where
  "has_unknown_flag tbl argv = list_ex (unknown_flag tbl) (takeWhile (\<lambda>s. s \<noteq> ''--'') argv)"

fun operand :: "('o \<Rightarrow> bool) \<Rightarrow> 'o tok list \<Rightarrow> string option" where
  "operand tv [] = None"
| "operand tv (Arg v # ts) = Some v"
| "operand tv (DashDash # Arg v # ts) = Some v"
| "operand tv (DashDash # ts) = None"
| "operand tv (Unknown s # ts) = operand tv ts"
| "operand tv (Opt action option_string (Some x) # ts) = operand tv ts"
| "operand tv (Opt action option_string None # Arg v # ts) =
     (if tv action then operand tv ts else Some v)"
| "operand tv (Opt action option_string None # ts) = operand tv ts"

fun option_values :: "'o \<Rightarrow> 'o tok list \<Rightarrow> string list" where
  "option_values a [] = []"
| "option_values a (Opt action option_string (Some (sep, x)) # ts) =
     (if action = a then x # option_values a ts else option_values a ts)"
| "option_values a (Opt action option_string None # Arg v # ts) =
     (if action = a then v # option_values a ts else option_values a ts)"
| "option_values a (t # ts) = option_values a ts"

definition invalid_state :: "string list \<Rightarrow> bool" where
  "invalid_state argv =
     (case classify switch_options argv of
        Inl e \<Rightarrow> False
      | Inr ts \<Rightarrow>
         (case operand switch_takes_value ts of
            None \<Rightarrow> False
          | Some v \<Rightarrow> v \<notin> set [''on'', ''off'']))"

definition invalid_initial_state :: "string list \<Rightarrow> bool" where
  "invalid_initial_state argv =
     (case classify control_options argv of
        Inl e \<Rightarrow> False
      | Inr ts \<Rightarrow> list_ex (\<lambda>v. v \<notin> set [''on'', ''off'']) (option_values CInitialState ts))"

subsection \<open>Example invocations\<close>

text \<open>
  \<^verbatim>\<open>relay_switch.py on --hold-time 3\<close>, \<^verbatim>\<open>relay_control.py\<close> with its defaults, and
  \<^verbatim>\<open>relay_switch.py on --active-low\<close>.
\<close>

definition three_second_hold :: switch_args where
  "three_second_hold = \<lparr>state = Some ''on'', sw_active_high = True, hold_time = Finite 3\<rparr>"

definition two_second_cycles :: control_args where
  "two_second_cycles =
     \<lparr>on_time = Finite 2, off_time = Finite 2, cycles = 0, initial_state = ''off'', active_high = True\<rparr>"

definition hold_until_stopped :: switch_args where
  "hold_until_stopped = \<lparr>state = Some ''on'', sw_active_high = False, hold_time = Finite 0\<rparr>"

text \<open>
  \<^verbatim>\<open>relay_control.py --cycles 1 --on-time -1\<close> and \<^verbatim>\<open>relay_control.py --on-time -1\<close>. The
  parser accepts a negative \<^verbatim>\<open>--on-time\<close>, and \<^verbatim>\<open>time.sleep\<close> raises \<^verbatim>\<open>ValueError\<close> for a
  negative length: the first sleep of these runs fails.
\<close>

definition one_cycle_negative_on_time :: control_args where
  "one_cycle_negative_on_time =
     \<lparr>on_time = Finite (- 1), off_time = Finite 2, cycles = 1, initial_state = ''off'',
      active_high = True\<rparr>"

definition endless_negative_on_time :: control_args where
  "endless_negative_on_time =
     \<lparr>on_time = Finite (- 1), off_time = Finite 2, cycles = 0, initial_state = ''off'',
      active_high = True\<rparr>"

text \<open>Conversions that accept no string, for command lines without numbers.\<close>

definition no_numbers :: builtins where
  "no_numbers = \<lparr>py_float = (\<lambda>s. None), py_int = (\<lambda>s. None)\<rparr>"

section \<open>Properties\<close>

subsection \<open>The loops\<close>

declare cycle_loop.simps [simp del]

lemma cycle_loop_stop: "\<not> loop_condition (cycles a) cc \<Longrightarrow> cycle_loop a on off cc env = ([], Normal)"
  by (simp add: cycle_loop.simps)

lemma cycle_loop_step:
  "loop_condition (cycles a) cc \<Longrightarrow>
   cycle_loop a on off cc (Wakes # Wakes # env) =
     ([Output relay_pin on, Sleep (on_time a), Output relay_pin off, Sleep (off_time a)]
        @ fst (cycle_loop a on off (count_cycle (cycles a) cc) env),
      snd (cycle_loop a on off (count_cycle (cycles a) cc) env))"
  by (subst cycle_loop.simps) (simp add: case_prod_unfold Let_def)

lemma cycle_loop_counted:
  "0 < cycles a \<Longrightarrow> cc + int k = cycles a \<Longrightarrow>
   cycle_loop a on off cc (replicate (2 * k) Wakes @ rest) =
     (concat (replicate k [Output relay_pin on, Sleep (on_time a),
                           Output relay_pin off, Sleep (off_time a)]), Normal)"
proof (induction k arbitrary: cc)
  case 0
  then show ?case by (simp add: cycle_loop_stop loop_condition_def)
next
  case (Suc k)
  have cond: "loop_condition (cycles a) cc"
    using Suc.prems by (simp add: loop_condition_def)
  have next_cc: "count_cycle (cycles a) cc + int k = cycles a"
    using Suc.prems by (simp add: count_cycle_def)
  show ?case
    using Suc.IH [OF Suc.prems(1) next_cc] cond
    by (simp add: cycle_loop_step)
qed

lemma cycle_loop_no_cleanup: "Cleanup \<notin> set (fst (cycle_loop a on off cc env))"
proof (induction a on off cc env rule: cycle_loop.induct)
  case (1 a on off cc env)
  show ?case
    using "1.IH"
    by (subst cycle_loop.simps) (auto split: sum.splits simp: case_prod_unfold Let_def)
qed

lemma cycle_loop_forever_not_normal:
  "cycles a = 0 \<Longrightarrow> snd (cycle_loop a on off cc env) \<noteq> Normal"
proof (induction a on off cc env rule: cycle_loop.induct)
  case (1 a on off cc env)
  show ?case
    using "1.IH" "1.prems"
    by (subst cycle_loop.simps)
       (auto split: sum.splits simp: case_prod_unfold Let_def loop_condition_def elim!: sleep.elims)
qed

lemma cycle_loop_forever:
  "cycles a = 0 \<Longrightarrow> Fails \<notin> set env \<Longrightarrow>
   snd (cycle_loop a on off cc env) =
     (if Interrupted \<in> set env then Raise KeyboardInterrupt else Blocked)"
proof (induction a on off cc env rule: cycle_loop.induct)
  case (1 a on off cc env)
  show ?case
    using "1.IH" "1.prems"
    by (subst cycle_loop.simps)
       (auto split: sum.splits simp: case_prod_unfold Let_def loop_condition_def elim!: sleep.elims)
qed

lemma cycle_loop_raised:
  "(snd (cycle_loop a on off cc env) = Raise KeyboardInterrupt \<longrightarrow> Interrupted \<in> set env) \<and>
   (snd (cycle_loop a on off cc env) = Raise SleepError \<longrightarrow> Fails \<in> set env)"
proof (induction a on off cc env rule: cycle_loop.induct)
  case (1 a on off cc env)
  show ?case
    using "1.IH"
    by (subst (1 2) cycle_loop.simps)
       (auto split: sum.splits simp: case_prod_unfold Let_def elim!: sleep.elims)
qed

lemma cycle_loop_interrupt:
  "cycle_loop a on off cc ws = (tr, Blocked) \<Longrightarrow>
   cycle_loop a on off cc (ws @ Interrupted # rest) = (tr, Raise KeyboardInterrupt) \<and>
   tr \<noteq> [] \<and> is_sleep (last tr)"
proof (induction a on off cc ws arbitrary: tr rule: cycle_loop.induct)
  case (1 a on off cc env)
  show ?case
  proof (cases "loop_condition (cycles a) cc")
    case False
    with "1.prems" show ?thesis by (simp add: cycle_loop.simps)
  next
    case True
    show ?thesis
    proof (cases env)
      case Nil
      with True "1.prems" show ?thesis
        by (auto simp: cycle_loop.simps)
    next
      case (Cons o1 env1)
      note c1 = Cons
      show ?thesis
      proof (cases o1)
        case Wakes
        show ?thesis
        proof (cases env1)
          case Nil
          with True "1.prems" c1 Wakes show ?thesis
            by (auto simp: cycle_loop.simps)
        next
          case (Cons o2 env2)
          show ?thesis
          proof (cases o2)
            case Wakes2: Wakes
            obtain tr2 x2 where r: "cycle_loop a on off (count_cycle (cycles a) cc) env2 = (tr2, x2)"
              by (cases "cycle_loop a on off (count_cycle (cycles a) cc) env2")
            from "1.prems" True c1 Wakes Cons Wakes2 r
            have x2: "x2 = Blocked" and tr: "tr = [Output relay_pin on, Sleep (on_time a), Output relay_pin off, Sleep (off_time a)] @ tr2"
              by (auto simp: cycle_loop_step)
            have s1: "sleep env = Inr env1" using c1 Wakes by simp
            have s2: "sleep env1 = Inr env2" using Cons Wakes2 by simp
            from "1.IH" [OF True s1 s2 r [unfolded x2]]
            have ih: "cycle_loop a on off (count_cycle (cycles a) cc) (env2 @ Interrupted # rest) = (tr2, Raise KeyboardInterrupt)"
              and ne: "tr2 \<noteq> []" and sl: "is_sleep (last tr2)" by auto
            show ?thesis
              using ih ne sl True c1 Wakes Cons Wakes2 tr
              by (simp add: cycle_loop_step)
          next
            case Interrupted
            with True "1.prems" c1 Wakes Cons show ?thesis by (auto simp: cycle_loop.simps)
          next
            case Fails
            with True "1.prems" c1 Wakes Cons show ?thesis by (auto simp: cycle_loop.simps)
          qed
        qed
      next
        case Interrupted
        with True "1.prems" c1 show ?thesis by (auto simp: cycle_loop.simps)
      next
        case Fails
        with True "1.prems" c1 show ?thesis by (auto simp: cycle_loop.simps)
      qed
    qed
  qed
qed


lemma hold_forever_not_normal: "snd (hold_forever env) \<noteq> Normal"
  by (induction env rule: hold_forever.induct) (simp_all add: case_prod_unfold Let_def)

lemma hold_forever_sleeps: "set (fst (hold_forever env)) = {Sleep (Finite 1)}"
  by (induction env rule: hold_forever.induct) (simp_all add: case_prod_unfold Let_def)

lemma hold_forever_interrupt:
  "hold_forever ws = (tr, Blocked) \<Longrightarrow>
   hold_forever (ws @ Interrupted # rest) = (tr, Raise KeyboardInterrupt) \<and>
   tr \<noteq> [] \<and> is_sleep (last tr)"
proof (induction ws arbitrary: tr rule: hold_forever.induct)
  case 1
  then show ?case by auto
next
  case (2 env)
  obtain tr2 x2 where r: "hold_forever env = (tr2, x2)"
    by (cases "hold_forever env")
  with "2.prems" have x2: "x2 = Blocked" and tr: "tr = Sleep (Finite 1) # tr2"
    by auto
  from "2.IH" [OF r [unfolded x2]] tr show ?case
    by simp
next
  case (3 env)
  then show ?case by simp
next
  case (4 env)
  then show ?case by simp
qed

lemma hold_sleeps: "e \<in> set (fst (hold t env)) \<Longrightarrow> is_sleep e"
  using hold_forever_sleeps [of env]
  by (auto simp: hold_def split: if_splits sum.splits)

lemma hold_interrupt:
  "hold t ws = (tr, Blocked) \<Longrightarrow>
   hold t (ws @ Interrupted # rest) = (tr, Raise KeyboardInterrupt) \<and>
   tr \<noteq> [] \<and> is_sleep (last tr)"
  using hold_forever_interrupt [of ws tr rest]
  by (auto simp: hold_def split: if_splits sum.splits elim!: sleep.elims)

lemma writes_append: "writes (xs @ ys) = writes xs @ writes ys"
  by (induction xs rule: writes.induct) simp_all

lemma writes_sleeps: "\<forall>e\<in>set xs. is_sleep e \<Longrightarrow> writes xs = []"
  by (induction xs rule: writes.induct) auto

lemma cleanup_filter_none: "Cleanup \<notin> set xs \<Longrightarrow> filter (\<lambda>e. e = Cleanup) xs = []"
  by (induction xs) auto

lemma takeWhile_no_cleanup: "Cleanup \<notin> set xs \<Longrightarrow> takeWhile (\<lambda>e. e \<noteq> Cleanup) (xs @ Cleanup # ys) = xs"
  by (induction xs) auto

lemma float_negative: "float_lt_zero t \<Longrightarrow> \<not> float_gt_zero t \<and> \<not> float_eq_zero t"
  by (cases t) auto



subsection \<open>Resolving the level\<close>

text \<open>
  C2. For every logical state and polarity, both scripts compute the level that the
  specification's mapping gives: High for On under ActiveHigh, Low for On under ActiveLow,
  and the complement of the On-level for Off. The computation is a total function of the
  two values.
\<close>

theorem resolved_level:
  "control_level (state_name s) (is_active_high p) = spec_resolve s p \<and>
   switch_level (Some (state_name s)) (is_active_high p) = spec_resolve s p \<and>
   spec_resolve On ActiveHigh = HIGH \<and> spec_resolve On ActiveLow = LOW \<and>
   spec_resolve Off ActiveHigh = LOW \<and> spec_resolve Off ActiveLow = HIGH"
  by (cases s; cases p)
     (simp_all add: control_level_def switch_level_def control_relay_levels_def
        switch_relay_levels_def spec_resolve_def spec_on_level_def)

text \<open>
  C9. Under either polarity the level for Off is the complement of the level for On, in
  both scripts.
\<close>

theorem off_is_complement_of_on:
  "control_level ''off'' ah = complement (control_level ''on'' ah) \<and>
   switch_level (Some ''off'') ah = complement (switch_level (Some ''on'') ah)"
  by (cases ah)
     (simp_all add: control_level_def switch_level_def control_relay_levels_def
        switch_relay_levels_def)

subsection \<open>The runs\<close>

lemma try_finally_outcome:
  "snd (try_finally (body, x) final) =
     (case x of Blocked \<Rightarrow> Running | Normal \<Rightarrow> Completed
      | Raise KeyboardInterrupt \<Rightarrow> StoppedByUser | Raise SleepError \<Rightarrow> Crashed)"
  by (cases "((body, x), final)" rule: try_finally.cases) simp_all

lemma try_finally_trace:
  "fst (try_finally (body, x) final) = (if x = Blocked then body else body @ final)"
  by (cases "((body, x), final)" rule: try_finally.cases) simp_all

lemma try_finally_running:
  "snd (try_finally (body, x) final) = Running \<longleftrightarrow> x = Blocked"
  by (cases "((body, x), final)" rule: try_finally.cases) simp_all

lemma control_run_eq:
  "relay_control_run a env =
     ([SetMode, Setup relay_pin (Some (control_level (initial_state a) (active_high a)))]
        @ fst (try_finally
                 (cycle_loop a (control_level ''on'' (active_high a))
                    (control_level ''off'' (active_high a)) 0 env)
                 [Output relay_pin (control_level ''off'' (active_high a)), Cleanup]),
      snd (try_finally
             (cycle_loop a (control_level ''on'' (active_high a))
                (control_level ''off'' (active_high a)) 0 env)
             [Output relay_pin (control_level ''off'' (active_high a)), Cleanup]))"
  by (simp add: relay_control_run_def control_level_def control_relay_levels_def
        case_prod_unfold Let_def)

lemma switch_run_eq:
  "relay_switch_run b env =
     ([SetMode, Setup relay_pin None]
        @ fst (try_finally
                 (Output relay_pin (switch_level (state b) (sw_active_high b))
                    # fst (hold (hold_time b) env), snd (hold (hold_time b) env))
                 [Cleanup]),
      snd (try_finally
             (Output relay_pin (switch_level (state b) (sw_active_high b))
                # fst (hold (hold_time b) env), snd (hold (hold_time b) env))
             [Cleanup]))"
  by (simp add: relay_switch_run_def set_and_hold_def switch_level_def switch_relay_levels_def
        case_prod_unfold Let_def)

lemma final_write_released:
  "Cleanup \<notin> set xs \<Longrightarrow> final_write (xs @ Output p l # Cleanup # ys) = Some l"
proof -
  assume nc: "Cleanup \<notin> set xs"
  have "Cleanup \<notin> set (xs @ [Output p l])" using nc by simp
  from takeWhile_no_cleanup [OF this, of ys]
  show ?thesis by (simp add: final_write_def before_release_def writes_append)
qed

lemma cleanup_count_once: "Cleanup \<notin> set xs \<Longrightarrow> cleanup_count (xs @ [Cleanup]) = 1"
  by (simp add: cleanup_count_def cleanup_filter_none)

subsection \<open>Cleanup\<close>

text \<open>
  C1, as amended. On every path on which a script ends (normal completion, an interrupt
  during a sleep, an exception raised by a sleep) the pin is released exactly once, as the
  last call. In the cycle driver the \<^verbatim>\<open>finally\<close> block first writes the Off-level, so the
  last write before the release is the Off-level of the configured polarity. The one-shot
  driver's \<^verbatim>\<open>finally\<close> block only calls \<^verbatim>\<open>GPIO.cleanup()\<close>: the run makes a single write, the
  level of the requested state, and that is the last write before the release.
\<close>

theorem cleanup_once_final_write:
  "(snd (relay_control_run a env) \<noteq> Running \<longrightarrow>
      cleanup_count (fst (relay_control_run a env)) = 1 \<and>
      last (fst (relay_control_run a env)) = Cleanup \<and>
      final_write (fst (relay_control_run a env)) = Some (control_level ''off'' (active_high a))) \<and>
   (snd (relay_switch_run b env') \<noteq> Running \<longrightarrow>
      cleanup_count (fst (relay_switch_run b env')) = 1 \<and>
      last (fst (relay_switch_run b env')) = Cleanup \<and>
      writes (fst (relay_switch_run b env')) = [switch_level (state b) (sw_active_high b)] \<and>
      final_write (fst (relay_switch_run b env')) = Some (switch_level (state b) (sw_active_high b)))"
proof (intro conjI impI)
  let ?off = "control_level ''off'' (active_high a)"
  let ?pre = "[SetMode, Setup relay_pin (Some (control_level (initial_state a) (active_high a)))]"
  assume ended: "snd (relay_control_run a env) \<noteq> Running"
  obtain body x where loop:
    "cycle_loop a (control_level ''on'' (active_high a)) ?off 0 env = (body, x)"
    by (cases "cycle_loop a (control_level ''on'' (active_high a)) ?off 0 env")
  from ended loop have x: "x \<noteq> Blocked"
    by (simp add: control_run_eq try_finally_running)
  have tr: "fst (relay_control_run a env) = (?pre @ body) @ Output relay_pin ?off # Cleanup # []"
    using loop x by (simp add: control_run_eq try_finally_trace)
  have nc: "Cleanup \<notin> set (?pre @ body)"
    using cycle_loop_no_cleanup [of a "control_level ''on'' (active_high a)" ?off 0 env] loop
    by simp
  show "cleanup_count (fst (relay_control_run a env)) = 1"
    using cleanup_count_once [of "?pre @ body @ [Output relay_pin ?off]"] nc tr by simp
  show "last (fst (relay_control_run a env)) = Cleanup"
    using tr by simp
  show "final_write (fst (relay_control_run a env)) = Some ?off"
    unfolding tr by (rule final_write_released [OF nc])
next
  let ?lvl = "switch_level (state b) (sw_active_high b)"
  let ?pre = "[SetMode, Setup relay_pin None]"
  assume ended: "snd (relay_switch_run b env') \<noteq> Running"
  obtain held x where h: "hold (hold_time b) env' = (held, x)"
    by (cases "hold (hold_time b) env'")
  from ended h have x: "x \<noteq> Blocked"
    by (simp add: switch_run_eq try_finally_running)
  have tr: "fst (relay_switch_run b env') = (?pre @ Output relay_pin ?lvl # held) @ [Cleanup]"
    using h x by (simp add: switch_run_eq try_finally_trace)
  have sl: "\<forall>e\<in>set held. is_sleep e"
    using hold_sleeps [of _ "hold_time b" env'] h by simp
  have nc: "Cleanup \<notin> set (?pre @ Output relay_pin ?lvl # held)"
    using sl by auto
  have wh: "writes held = []"
    using sl by (rule writes_sleeps)
  show "cleanup_count (fst (relay_switch_run b env')) = 1"
    unfolding tr by (rule cleanup_count_once [OF nc])
  show "last (fst (relay_switch_run b env')) = Cleanup"
    using tr by simp
  show "writes (fst (relay_switch_run b env')) = [?lvl]"
    using tr wh by (simp add: writes_append)
  have "takeWhile (\<lambda>e. e \<noteq> Cleanup) (fst (relay_switch_run b env')) = ?pre @ Output relay_pin ?lvl # held"
    unfolding tr using takeWhile_no_cleanup [OF nc, of "[]"] by simp
  then show "final_write (fst (relay_switch_run b env')) = Some ?lvl"
    using wh by (simp add: final_write_def before_release_def writes_append)
qed

lemma three_second_hold_run:
  "relay_switch_run three_second_hold [Wakes] =
     ([SetMode, Setup relay_pin None, Output relay_pin HIGH, Sleep (Finite 3), Cleanup], Completed)"
  by (simp add: three_second_hold_def relay_switch_run_def set_and_hold_def
        switch_relay_levels_def hold_def Let_def)

text \<open>
  C1 as stated fails for the one-shot driver: \<^verbatim>\<open>relay_switch.py on --hold-time 3\<close>, left to
  complete, releases the pin with High as the last level written, while the Off-level of
  the active-high polarity is Low.
\<close>

theorem one_shot_final_write_counterexample:
  "snd (relay_switch_run three_second_hold [Wakes]) = Completed \<and>
   final_write (fst (relay_switch_run three_second_hold [Wakes])) = Some HIGH \<and>
   switch_level (Some ''off'') (sw_active_high three_second_hold) = LOW"
  by (simp add: three_second_hold_run final_write_def before_release_def)
     (simp add: three_second_hold_def switch_level_def switch_relay_levels_def)

theorem cleanup_once_final_write_witness:
  "snd (relay_control_run \<lparr>on_time = Finite 2, off_time = Finite 2, cycles = 0, initial_state = ''off'', active_high = True\<rparr> [Wakes, Interrupted]) \<noteq> Running \<and>
   snd (relay_switch_run three_second_hold [Wakes]) \<noteq> Running \<and>
   cleanup_count (fst (relay_control_run \<lparr>on_time = Finite 2, off_time = Finite 2, cycles = 0, initial_state = ''off'', active_high = True\<rparr> [Wakes, Interrupted])) = 1 \<and>
   final_write (fst (relay_control_run \<lparr>on_time = Finite 2, off_time = Finite 2, cycles = 0, initial_state = ''off'', active_high = True\<rparr> [Wakes, Interrupted])) = Some LOW \<and>
   cleanup_count (fst (relay_switch_run three_second_hold [Wakes])) = 1 \<and>
   final_write (fst (relay_switch_run three_second_hold [Wakes])) = Some HIGH"
proof -
  let ?a = "\<lparr>on_time = Finite 2, off_time = Finite 2, cycles = 0, initial_state = ''off'', active_high = True\<rparr>"
  have r: "relay_control_run ?a [Wakes, Interrupted] =
     ([SetMode, Setup relay_pin (Some LOW), Output relay_pin HIGH, Sleep (Finite 2),
       Output relay_pin LOW, Sleep (Finite 2), Output relay_pin LOW, Cleanup], StoppedByUser)"
    by (simp add: relay_control_run_def control_relay_levels_def cycle_loop.simps loop_condition_def)
  have c: "snd (relay_control_run ?a [Wakes, Interrupted]) \<noteq> Running" by (simp add: r)
  have s: "snd (relay_switch_run three_second_hold [Wakes]) \<noteq> Running" by (simp add: three_second_hold_run)
  have lv: "control_level ''off'' (active_high ?a) = LOW" "switch_level (state three_second_hold) (sw_active_high three_second_hold) = HIGH"
    by (simp_all add: control_level_def control_relay_levels_def three_second_hold_def switch_level_def switch_relay_levels_def)
  from cleanup_once_final_write [of ?a "[Wakes, Interrupted]" three_second_hold "[Wakes]"] c s lv
  show ?thesis by simp
qed


subsection \<open>The cycle driver\<close>

text \<open>
  C3, as amended. With \<^verbatim>\<open>--cycles N\<close>, \<open>N > 0\<close>, under either polarity, a run in which
  every sleep returns (the first \<open>2 N\<close> outcomes are \<open>Wakes\<close>: no sleep is interrupted and
  none raises an error) makes, after the setup, exactly \<open>N\<close> repetitions of (write
  On-level, sleep \<open>on_time\<close>, write Off-level, sleep \<open>off_time\<close>), then runs its
  \<^verbatim>\<open>finally\<close> block and completes.
\<close>

theorem counted_cycles:
  "0 < cycles a \<Longrightarrow>
   relay_control_run a (replicate (2 * nat (cycles a)) Wakes @ rest) =
     ([SetMode, Setup relay_pin (Some (control_level (initial_state a) (active_high a)))]
        @ concat (replicate (nat (cycles a)) (cycle_events a))
        @ [Output relay_pin (control_level ''off'' (active_high a)), Cleanup],
      Completed)"
proof -
  let ?on = "control_level ''on'' (active_high a)"
  let ?off = "control_level ''off'' (active_high a)"
  let ?env = "replicate (2 * nat (cycles a)) Wakes @ rest"
  assume pos: "0 < cycles a"
  then have k: "0 + int (nat (cycles a)) = cycles a" by simp
  have loop: "cycle_loop a ?on ?off 0 ?env = (concat (replicate (nat (cycles a)) (cycle_events a)), Normal)"
    using cycle_loop_counted [OF pos k, of ?on ?off rest] by (simp add: cycle_events_def)
  show ?thesis
    by (simp add: control_run_eq loop)
qed

theorem counted_cycles_witness:
  "(0::int) < cycles \<lparr>on_time = Finite 2, off_time = Finite 1, cycles = 2, initial_state = ''off'', active_high = False\<rparr> \<and>
   relay_control_run \<lparr>on_time = Finite 2, off_time = Finite 1, cycles = 2, initial_state = ''off'', active_high = False\<rparr>
       [Wakes, Wakes, Wakes, Wakes] =
     ([SetMode, Setup relay_pin (Some HIGH),
       Output relay_pin LOW, Sleep (Finite 2), Output relay_pin HIGH, Sleep (Finite 1),
       Output relay_pin LOW, Sleep (Finite 2), Output relay_pin HIGH, Sleep (Finite 1),
       Output relay_pin HIGH, Cleanup], Completed)"
proof -
  let ?a = "\<lparr>on_time = Finite 2, off_time = Finite 1, cycles = 2, initial_state = ''off'', active_high = False\<rparr>"
  have pos: "0 < cycles ?a" by simp
  have env: "replicate (2 * nat (cycles ?a)) Wakes @ [] = [Wakes, Wakes, Wakes, Wakes]"
    by (simp add: numeral_eq_Suc)
  have rep: "concat (replicate (nat (cycles ?a)) (cycle_events ?a)) = cycle_events ?a @ cycle_events ?a"
    by (simp add: numeral_eq_Suc)
  from counted_cycles [OF pos, of "[]"] show ?thesis
    unfolding env rep
    by (simp add: cycle_events_def control_level_def control_relay_levels_def)
qed

lemma one_cycle_negative_on_time_run:
  "relay_control_run one_cycle_negative_on_time [Fails] =
     ([SetMode, Setup relay_pin (Some LOW), Output relay_pin HIGH, Sleep (Finite (- 1)),
       Output relay_pin LOW, Cleanup], Crashed)"
  by (simp add: one_cycle_negative_on_time_def relay_control_run_def control_relay_levels_def
        cycle_loop.simps loop_condition_def)

text \<open>
  C3 as stated fails: the durations are passed to \<^verbatim>\<open>time.sleep\<close> as the parser read them.
  \<^verbatim>\<open>relay_control.py --cycles 1 --on-time -1\<close> is not interrupted, and ends in its first
  sleep, before one repetition is complete, with an uncaught exception.
\<close>

theorem counted_cycles_counterexample:
  "0 < cycles one_cycle_negative_on_time \<and>
   Interrupted \<notin> set [Fails] \<and>
   relay_control_run one_cycle_negative_on_time [Fails] =
     ([SetMode, Setup relay_pin (Some LOW), Output relay_pin HIGH, Sleep (Finite (- 1)),
       Output relay_pin LOW, Cleanup], Crashed) \<and>
   exit_status (snd (relay_control_run one_cycle_negative_on_time [Fails])) = Some 1"
  by (simp add: one_cycle_negative_on_time_run) (simp add: one_cycle_negative_on_time_def)

text \<open>
  C4, as amended. With \<^verbatim>\<open>--cycles 0\<close> the loop condition holds at every value of the
  counter, and the counter is never incremented; while every sleep returns the script is
  still running, whatever the number of sleeps; no run completes normally. A run ends only
  in a sleep: as a stop by the user when a sleep is interrupted, or with an uncaught
  exception when a sleep raises an error. When no sleep raises an error, a run ends
  exactly when an interrupt arrives.
\<close>

theorem endless_cycles:
  "cycles a = 0 \<Longrightarrow>
   loop_condition (cycles a) n \<and> count_cycle (cycles a) n = n \<and>
   snd (relay_control_run a (replicate k Wakes)) = Running \<and>
   snd (relay_control_run a env) \<noteq> Completed \<and>
   (snd (relay_control_run a env) = StoppedByUser \<longrightarrow> Interrupted \<in> set env) \<and>
   (snd (relay_control_run a env) = Crashed \<longrightarrow> Fails \<in> set env) \<and>
   (Fails \<notin> set env \<longrightarrow>
      snd (relay_control_run a env) = (if Interrupted \<in> set env then StoppedByUser else Running))"
proof -
  let ?on = "control_level ''on'' (active_high a)"
  let ?off = "control_level ''off'' (active_high a)"
  assume z: "cycles a = 0"
  have run: "snd (relay_control_run a e) =
      (case snd (cycle_loop a ?on ?off 0 e) of Normal \<Rightarrow> Completed | Raise KeyboardInterrupt \<Rightarrow> StoppedByUser
                | Raise SleepError \<Rightarrow> Crashed | Blocked \<Rightarrow> Running)" for e
    using try_finally_outcome [of "fst (cycle_loop a ?on ?off 0 e)" "snd (cycle_loop a ?on ?off 0 e)"]
    by (simp add: control_run_eq)
  have c1: "loop_condition (cycles a) n \<and> count_cycle (cycles a) n = n"
    using z by (simp add: loop_condition_def count_cycle_def)
  have "snd (cycle_loop a ?on ?off 0 (replicate k Wakes)) = Blocked"
    using cycle_loop_forever [OF z, of "replicate k Wakes" ?on ?off 0] by simp
  then have c2: "snd (relay_control_run a (replicate k Wakes)) = Running"
    by (simp add: run)
  have c3: "snd (relay_control_run a env) \<noteq> Completed"
    using cycle_loop_forever_not_normal [OF z, of ?on ?off 0 env]
    by (simp add: run split: flow.splits exc.splits)
  have c4: "Fails \<notin> set env \<longrightarrow>
      snd (relay_control_run a env) = (if Interrupted \<in> set env then StoppedByUser else Running)"
    using cycle_loop_forever [OF z, of env ?on ?off 0] by (simp add: run)
  have c5: "snd (relay_control_run a env) = StoppedByUser \<longrightarrow> Interrupted \<in> set env"
    using cycle_loop_raised [of a ?on ?off 0 env]
    by (auto simp: run split: flow.splits exc.splits)
  have c6: "snd (relay_control_run a env) = Crashed \<longrightarrow> Fails \<in> set env"
    using cycle_loop_raised [of a ?on ?off 0 env]
    by (auto simp: run split: flow.splits exc.splits)
  from c1 c2 c3 c4 c5 c6 show ?thesis by blast
qed

theorem endless_cycles_witness:
  "cycles \<lparr>on_time = Finite 2, off_time = Finite 2, cycles = 0, initial_state = ''off'', active_high = True\<rparr> = 0 \<and>
   loop_condition 0 5 \<and>
   snd (relay_control_run \<lparr>on_time = Finite 2, off_time = Finite 2, cycles = 0, initial_state = ''off'', active_high = True\<rparr>
         (replicate 7 Wakes)) = Running \<and>
   Fails \<notin> set [Wakes, Wakes, Wakes, Interrupted] \<and>
   snd (relay_control_run \<lparr>on_time = Finite 2, off_time = Finite 2, cycles = 0, initial_state = ''off'', active_high = True\<rparr>
         [Wakes, Wakes, Wakes, Interrupted]) = StoppedByUser"
proof -
  let ?a = "\<lparr>on_time = Finite 2, off_time = Finite 2, cycles = 0, initial_state = ''off'', active_high = True\<rparr>"
  have z: "cycles ?a = 0" by simp
  from endless_cycles [OF z, of 5 7 "[Wakes, Wakes, Wakes, Interrupted]"] show ?thesis
    by simp
qed

lemma endless_negative_on_time_run:
  "relay_control_run endless_negative_on_time [Fails] =
     ([SetMode, Setup relay_pin (Some LOW), Output relay_pin HIGH, Sleep (Finite (- 1)),
       Output relay_pin LOW, Cleanup], Crashed)"
  by (simp add: endless_negative_on_time_def relay_control_run_def control_relay_levels_def
        cycle_loop.simps loop_condition_def)

text \<open>
  C4 as stated fails: \<^verbatim>\<open>relay_control.py --on-time -1\<close> runs with \<^verbatim>\<open>--cycles 0\<close>, no
  interrupt arrives, and the run ends by itself in its first sleep, with exit status 1.
\<close>

theorem endless_cycles_counterexample:
  "cycles endless_negative_on_time = 0 \<and>
   Interrupted \<notin> set [Fails] \<and>
   snd (relay_control_run endless_negative_on_time [Fails]) = Crashed \<and>
   exit_status (snd (relay_control_run endless_negative_on_time [Fails])) = Some 1"
  by (simp add: endless_negative_on_time_run) (simp add: endless_negative_on_time_def)


text \<open>
  C8. Changing \<^verbatim>\<open>--initial-state\<close> changes the level given to \<^verbatim>\<open>GPIO.setup\<close> and nothing
  else of the run; when the loop is entered, the first write is the On-level.
\<close>

theorem initial_state_sets_up_only:
  "fst (relay_control_run (a\<lparr>initial_state := s\<rparr>) env) =
     SetMode # Setup relay_pin (Some (control_level s (active_high a)))
       # drop 2 (fst (relay_control_run a env)) \<and>
   snd (relay_control_run (a\<lparr>initial_state := s\<rparr>) env) = snd (relay_control_run a env) \<and>
   (loop_condition (cycles a) 0 \<longrightarrow>
      take 3 (fst (relay_control_run (a\<lparr>initial_state := s\<rparr>) env)) =
        [SetMode, Setup relay_pin (Some (control_level s (active_high a))),
         Output relay_pin (control_level ''on'' (active_high a))])"
proof -
  let ?on = "control_level ''on'' (active_high a)"
  let ?off = "control_level ''off'' (active_high a)"
  have same: "cycle_loop (a\<lparr>initial_state := s\<rparr>) on off cc e = cycle_loop a on off cc e" for on off cc e
  proof (induction a on off cc e rule: cycle_loop.induct)
    case (1 a on off cc e)
    show ?case
      by (subst (1 2) cycle_loop.simps) (auto split: sum.splits simp: "1.IH")
  qed
  have first: "take 1 (fst (cycle_loop a ?on ?off 0 env)) = [Output relay_pin ?on]"
    if "loop_condition (cycles a) 0"
    using that by (subst cycle_loop.simps) (auto split: sum.splits simp: case_prod_unfold Let_def)
  have "take 1 (fst (try_finally (cycle_loop a ?on ?off 0 env) fin)) = [Output relay_pin ?on]"
    if c: "loop_condition (cycles a) 0" for fin
  proof -
    obtain body x where loop: "cycle_loop a ?on ?off 0 env = (body, x)"
      by (cases "cycle_loop a ?on ?off 0 env")
    with first [OF c] have "take 1 body = [Output relay_pin ?on]" by simp
    then show ?thesis
      unfolding loop by (cases body) (simp_all add: try_finally_trace)
  qed
  then show ?thesis
    by (simp add: control_run_eq same)
qed

theorem initial_state_sets_up_only_witness:
  "loop_condition (cycles two_second_cycles) 0 \<and>
   take 3 (fst (relay_control_run (two_second_cycles\<lparr>initial_state := ''on''\<rparr>) [Wakes])) =
     [SetMode, Setup relay_pin (Some HIGH), Output relay_pin HIGH] \<and>
   take 3 (fst (relay_control_run (two_second_cycles\<lparr>initial_state := ''off''\<rparr>) [Wakes])) =
     [SetMode, Setup relay_pin (Some LOW), Output relay_pin HIGH]"
proof -
  have c: "loop_condition (cycles two_second_cycles) 0"
    by (simp add: two_second_cycles_def loop_condition_def)
  have lv: "control_level ''on'' (active_high two_second_cycles) = HIGH"
    "control_level ''off'' (active_high two_second_cycles) = LOW"
    by (simp_all add: two_second_cycles_def control_level_def control_relay_levels_def)
  note on_first = initial_state_sets_up_only [where a = two_second_cycles and env = "[Wakes]",
      THEN conjunct2, THEN conjunct2, rule_format, OF c]
  from on_first [of "''on''"] on_first [of "''off''"] c lv
  show ?thesis by simp
qed

subsection \<open>Interrupts\<close>

text \<open>
  C5. Whenever a script is asleep (its run on the outcomes so far is still running, and its
  last call is a sleep), an interrupt arriving then adds nothing to the trace but the
  \<^verbatim>\<open>finally\<close> block, and the run ends as a stop by the user, whose exit status is 0.
\<close>

theorem interrupt_during_sleep:
  "(relay_control_run a ws = (tr, Running) \<longrightarrow>
      is_sleep (last tr) \<and>
      relay_control_run a (ws @ Interrupted # rest) =
        (tr @ [Output relay_pin (control_level ''off'' (active_high a)), Cleanup], StoppedByUser)) \<and>
   (relay_switch_run b ws' = (tr', Running) \<longrightarrow>
      is_sleep (last tr') \<and>
      relay_switch_run b (ws' @ Interrupted # rest') = (tr' @ [Cleanup], StoppedByUser)) \<and>
   exit_status StoppedByUser = Some 0"
proof (intro conjI impI)
  let ?on = "control_level ''on'' (active_high a)"
  let ?off = "control_level ''off'' (active_high a)"
  assume run: "relay_control_run a ws = (tr, Running)"
  obtain body x where loop: "cycle_loop a ?on ?off 0 ws = (body, x)"
    by (cases "cycle_loop a ?on ?off 0 ws")
  from run loop have x: "x = Blocked"
    using try_finally_running [of body x] by (simp add: control_run_eq)
  from run loop x have tr: "tr = [SetMode, Setup relay_pin (Some (control_level (initial_state a) (active_high a)))] @ body"
    by (simp add: control_run_eq)
  from cycle_loop_interrupt [OF loop [unfolded x], of rest]
  have int: "cycle_loop a ?on ?off 0 (ws @ Interrupted # rest) = (body, Raise KeyboardInterrupt)"
    and ne: "body \<noteq> []" and sl: "is_sleep (last body)" by simp_all
  show "is_sleep (last tr)" using tr ne sl by simp
  show "relay_control_run a (ws @ Interrupted # rest) = (tr @ [Output relay_pin ?off, Cleanup], StoppedByUser)"
    by (simp add: control_run_eq int tr)
next
  let ?lvl = "switch_level (state b) (sw_active_high b)"
  assume run: "relay_switch_run b ws' = (tr', Running)"
  obtain held x where h: "hold (hold_time b) ws' = (held, x)"
    by (cases "hold (hold_time b) ws'")
  from run h have x: "x = Blocked"
    using try_finally_running [of "Output relay_pin ?lvl # held" x] by (simp add: switch_run_eq)
  from run h x have tr: "tr' = [SetMode, Setup relay_pin None, Output relay_pin ?lvl] @ held"
    by (simp add: switch_run_eq)
  from hold_interrupt [OF h [unfolded x], of rest']
  have int: "hold (hold_time b) (ws' @ Interrupted # rest') = (held, Raise KeyboardInterrupt)"
    and ne: "held \<noteq> []" and sl: "is_sleep (last held)" by simp_all
  show "is_sleep (last tr')" using tr ne sl by simp
  show "relay_switch_run b (ws' @ Interrupted # rest') = (tr' @ [Cleanup], StoppedByUser)"
    by (simp add: switch_run_eq int tr)
next
  show "exit_status StoppedByUser = Some 0" by simp
qed

lemma two_second_cycles_asleep:
  "relay_control_run two_second_cycles [Wakes] =
     ([SetMode, Setup relay_pin (Some LOW), Output relay_pin HIGH, Sleep (Finite 2),
       Output relay_pin LOW, Sleep (Finite 2)], Running)"
  by (simp add: two_second_cycles_def relay_control_run_def control_relay_levels_def
        cycle_loop.simps loop_condition_def)

lemma hold_until_stopped_asleep:
  "relay_switch_run hold_until_stopped [Wakes] =
     ([SetMode, Setup relay_pin None, Output relay_pin LOW, Sleep (Finite 1), Sleep (Finite 1)],
      Running)"
  by (simp add: hold_until_stopped_def relay_switch_run_def set_and_hold_def
        switch_relay_levels_def hold_def)

theorem interrupt_during_sleep_witness:
  "relay_control_run two_second_cycles [Wakes] =
     ([SetMode, Setup relay_pin (Some LOW), Output relay_pin HIGH, Sleep (Finite 2),
       Output relay_pin LOW, Sleep (Finite 2)], Running) \<and>
   relay_control_run two_second_cycles [Wakes, Interrupted, Wakes] =
     ([SetMode, Setup relay_pin (Some LOW), Output relay_pin HIGH, Sleep (Finite 2),
       Output relay_pin LOW, Sleep (Finite 2), Output relay_pin LOW, Cleanup], StoppedByUser) \<and>
   relay_switch_run hold_until_stopped [Wakes] =
     ([SetMode, Setup relay_pin None, Output relay_pin LOW, Sleep (Finite 1), Sleep (Finite 1)],
      Running) \<and>
   relay_switch_run hold_until_stopped [Wakes, Interrupted] =
     ([SetMode, Setup relay_pin None, Output relay_pin LOW, Sleep (Finite 1), Sleep (Finite 1),
       Cleanup], StoppedByUser)"
proof -
  have lv: "control_level ''off'' (active_high two_second_cycles) = LOW"
    by (simp add: two_second_cycles_def control_level_def control_relay_levels_def)
  from interrupt_during_sleep [where a = two_second_cycles and ws = "[Wakes]" and rest = "[Wakes]"
      and b = hold_until_stopped and ws' = "[Wakes]" and rest' = "[]"]
    two_second_cycles_asleep hold_until_stopped_asleep lv
  show ?thesis by simp
qed

subsection \<open>The one-shot driver\<close>

text \<open>
  C6. Every run of the one-shot driver starts with the mode selection, the pin setup and
  one write of the level of the requested state; no other write follows, so exactly one
  write precedes the first sleep.
\<close>

theorem single_write_before_hold:
  "take 3 (fst (relay_switch_run a env)) =
     [SetMode, Setup relay_pin None, Output relay_pin (switch_level (state a) (sw_active_high a))] \<and>
   writes (drop 3 (fst (relay_switch_run a env))) = [] \<and>
   writes (fst (relay_switch_run a env)) = [switch_level (state a) (sw_active_high a)] \<and>
   writes (takeWhile (\<lambda>e. \<not> is_sleep e) (fst (relay_switch_run a env))) =
     [switch_level (state a) (sw_active_high a)]"
proof -
  let ?lvl = "switch_level (state a) (sw_active_high a)"
  obtain held x where h: "hold (hold_time a) env = (held, x)"
    by (cases "hold (hold_time a) env")
  have sl: "\<forall>e\<in>set held. is_sleep e"
    using hold_sleeps [of _ "hold_time a" env] h by simp
  have wh: "writes held = []"
    using sl by (rule writes_sleeps)
  have tr: "fst (relay_switch_run a env) =
      [SetMode, Setup relay_pin None, Output relay_pin ?lvl] @ held @ (if x = Blocked then [] else [Cleanup])"
    using h by (simp add: switch_run_eq try_finally_trace)
  have tw: "takeWhile (\<lambda>e. \<not> is_sleep e) (held @ ys) = takeWhile (\<lambda>e. \<not> is_sleep e) ys" if "held = []" for ys
    using that by simp
  have tw2: "takeWhile (\<lambda>e. \<not> is_sleep e) (held @ ys) = []" if "held \<noteq> []" for ys
    using that sl by (cases held) auto
  have "writes (takeWhile (\<lambda>e. \<not> is_sleep e) (held @ (if x = Blocked then [] else [Cleanup]))) = []"
    by (cases "held = []") (simp_all add: tw2)
  then show ?thesis
    unfolding tr using wh by (simp add: writes_append)
qed

text \<open>
  C10. With a negative \<^verbatim>\<open>--hold-time\<close> the one-shot driver sleeps not at all: after the
  single write it releases the pin and completes with exit status 0.
\<close>

theorem negative_hold_time:
  "float_lt_zero (hold_time a) \<Longrightarrow>
   relay_switch_run a env =
     ([SetMode, Setup relay_pin None,
       Output relay_pin (switch_level (state a) (sw_active_high a)), Cleanup], Completed) \<and>
   hold (hold_time a) env = ([], Normal) \<and>
   exit_status (snd (relay_switch_run a env)) = Some 0"
proof -
  assume "float_lt_zero (hold_time a)"
  then have h: "hold (hold_time a) env = ([], Normal)"
    using float_negative [of "hold_time a"] by (simp add: hold_def)
  then show ?thesis
    by (simp add: switch_run_eq)
qed

theorem negative_hold_time_witness:
  "float_lt_zero (hold_time \<lparr>state = Some ''on'', sw_active_high = True, hold_time = Finite (- 1)\<rparr>) \<and>
   relay_switch_run \<lparr>state = Some ''on'', sw_active_high = True, hold_time = Finite (- 1)\<rparr> [Wakes, Interrupted] =
     ([SetMode, Setup relay_pin None, Output relay_pin HIGH, Cleanup], Completed)"
proof -
  let ?a = "\<lparr>state = Some ''on'', sw_active_high = True, hold_time = Finite (- 1)\<rparr>"
  have n: "float_lt_zero (hold_time ?a)" by simp
  have lv: "switch_level (state ?a) (sw_active_high ?a) = HIGH"
    by (simp add: switch_level_def switch_relay_levels_def)
  from negative_hold_time [OF n, of "[Wakes, Interrupted]"] n lv show ?thesis by simp
qed

subsection \<open>Argument validation\<close>

lemma consume_extras: "extras \<noteq> [] \<Longrightarrow> isl (consume P ts pos ns extras)"
  by (induction P ts pos ns extras rule: consume.induct)
     (auto split: sum.splits list.splits tok.splits prod.splits)

lemma consume_unknown: "Unknown s \<in> set ts \<Longrightarrow> isl (consume P ts pos ns extras)"
  by (induction P ts pos ns extras rule: consume.induct)
     (auto split: sum.splits list.splits tok.splits prod.splits simp: consume_extras)


lemma consume_rejected_operand:
  "(\<And>ns ns'. f v ns \<noteq> Inr ns') \<Longrightarrow> isl (consume P (Arg v # ts) (Some f) ns extras)"
  by (cases "(P, Arg v # ts, Some f, ns, extras)" rule: consume.cases)
     (auto split: sum.splits)

lemma consume_operand:
  "operand (takes_value P) ts = Some v \<Longrightarrow> (\<And>ns ns'. f v ns \<noteq> Inr ns') \<Longrightarrow>
   isl (consume P ts (Some f) ns extras)"
proof (induction "takes_value P" ts arbitrary: ns extras rule: operand.induct)
  case (2 v' ts)
  then show ?case
    using consume_rejected_operand [of f v P ts ns extras] by simp
next
  case (7 action option_string v' ts)
  show ?case
  proof (cases "takes_value P action")
    case True
    with 7 show ?thesis by (auto split: sum.splits)
  next
    case False
    with "7.prems" have "v' = v" by simp
    with False "7.prems"(2) show ?thesis
      using consume_rejected_operand [of f v P ts _ extras]
      by (auto split: sum.splits)
  qed
qed (auto split: sum.splits list.splits tok.splits prod.splits)

lemma consume_option_value:
  "v \<in> set (option_values a ts) \<Longrightarrow> takes_value P a \<Longrightarrow>
   (\<And>ns ns'. optional_action P a (Some v) ns \<noteq> Inr ns') \<Longrightarrow>
   isl (consume P ts pos ns extras)"
  by (induction P ts pos ns extras rule: consume.induct)
     (auto split: sum.splits list.splits tok.splits prod.splits if_splits)

lemma classify_tokens_before_dashes:
  "classify tbl argv = Inr ts \<Longrightarrow> s \<in> set (takeWhile (\<lambda>s. s \<noteq> ''--'') argv) \<Longrightarrow>
   \<exists>t \<in> set ts. parse_optional tbl s = Inr t"
  by (induction argv arbitrary: ts) (auto split: if_splits sum.splits)

lemma classify_unknown:
  "classify tbl argv = Inr ts \<Longrightarrow> has_unknown_flag tbl argv \<Longrightarrow> \<exists>u. Unknown u \<in> set ts"
proof -
  assume c: "classify tbl argv = Inr ts" and h: "has_unknown_flag tbl argv"
  from h obtain s where s: "s \<in> set (takeWhile (\<lambda>s. s \<noteq> ''--'') argv)" and u: "unknown_flag tbl s"
    by (auto simp: has_unknown_flag_def list_ex_iff)
  from classify_tokens_before_dashes [OF c s] obtain t where t: "t \<in> set ts" "parse_optional tbl s = Inr t"
    by blast
  with u show ?thesis
    by (cases t) (auto simp: unknown_flag_def)
qed

lemma parse_args_unknown_flag:
  "has_unknown_flag (options P) argv \<Longrightarrow> isl (parse_args P argv)"
  using classify_unknown [of "options P" argv] consume_unknown [of _ _ P]
  by (auto simp: parse_args_def split: sum.splits)

lemma switch_invalid_state: "invalid_state argv \<Longrightarrow> isl (parse_args (switch_parser B) argv)"
proof -
  assume inv: "invalid_state argv"
  then obtain ts v where c: "classify switch_options argv = Inr ts"
    and o: "operand switch_takes_value ts = Some v" and v: "v \<notin> set [''on'', ''off'']"
    by (auto simp: invalid_state_def split: sum.splits option.splits)
  have rej: "state_action v ns \<noteq> Inr ns'" for ns ns'
    using v by (simp add: state_action_def)
  have "operand (takes_value (switch_parser B)) ts = Some v"
    using o by (simp add: switch_parser_def)
  then have "isl (consume (switch_parser B) ts (Some state_action) (defaults (switch_parser B)) [])"
    using rej by (rule consume_operand)
  then show ?thesis
    using c by (simp add: parse_args_def switch_parser_def)
qed

lemma control_invalid_initial_state:
  "invalid_initial_state argv \<Longrightarrow> isl (parse_args (control_parser B) argv)"
proof -
  assume inv: "invalid_initial_state argv"
  then obtain ts v where c: "classify control_options argv = Inr ts"
    and o: "v \<in> set (option_values CInitialState ts)" and v: "v \<notin> set [''on'', ''off'']"
    by (auto simp: invalid_initial_state_def list_ex_iff split: sum.splits)
  have rej: "optional_action (control_parser B) CInitialState (Some v) ns \<noteq> Inr ns'" for ns ns'
    using v by (simp add: control_parser_def)
  have tv: "takes_value (control_parser B) CInitialState"
    by (simp add: control_parser_def)
  have "isl (consume (control_parser B) ts None (defaults (control_parser B)) [])"
    by (rule consume_option_value [OF o tv rej])
  then show ?thesis
    using c by (simp add: parse_args_def control_parser_def)
qed

text \<open>
  C7. A command line with an unknown flag or an invalid state value is rejected by
  \<^verbatim>\<open>parse_args\<close>, in either script, and a rejected command line leaves the trace empty:
  no mode selection, no pin setup and no write.
\<close>

theorem rejected_before_hardware:
  "(has_unknown_flag switch_options argv \<or> invalid_state argv \<longrightarrow>
      (\<exists>e. relay_switch_main B argv env = ([], ArgExit e))) \<and>
   (has_unknown_flag control_options argv' \<or> invalid_initial_state argv' \<longrightarrow>
      (\<exists>e. relay_control_main B argv' env' = ([], ArgExit e))) \<and>
   (isl (parse_args (switch_parser B) argv) \<longrightarrow> fst (relay_switch_main B argv env) = []) \<and>
   (isl (parse_args (control_parser B) argv') \<longrightarrow> fst (relay_control_main B argv' env') = [])"
proof (intro conjI impI)
  assume "has_unknown_flag switch_options argv \<or> invalid_state argv"
  then have "isl (parse_args (switch_parser B) argv)"
    using parse_args_unknown_flag [of "switch_parser B" argv] switch_invalid_state [of argv B]
    by (auto simp: switch_parser_def)
  then show "\<exists>e. relay_switch_main B argv env = ([], ArgExit e)"
    by (auto simp: relay_switch_main_def split: sum.splits)
next
  assume "has_unknown_flag control_options argv' \<or> invalid_initial_state argv'"
  then have "isl (parse_args (control_parser B) argv')"
    using parse_args_unknown_flag [of "control_parser B" argv'] control_invalid_initial_state [of argv' B]
    by (auto simp: control_parser_def)
  then show "\<exists>e. relay_control_main B argv' env' = ([], ArgExit e)"
    by (auto simp: relay_control_main_def split: sum.splits)
next
  assume "isl (parse_args (switch_parser B) argv)"
  then show "fst (relay_switch_main B argv env) = []"
    by (auto simp: relay_switch_main_def split: sum.splits)
next
  assume "isl (parse_args (control_parser B) argv')"
  then show "fst (relay_control_main B argv' env') = []"
    by (auto simp: relay_control_main_def split: sum.splits)
qed


lemma unknown_flag_examples:
  "has_unknown_flag switch_options [''on'', ''--bogus'']"
  "has_unknown_flag control_options [''--cycles'', ''3'', ''-x'']"
  "invalid_state [''--active-low'', ''ON'']"
  "invalid_initial_state [''--initial-state'', ''maybe'']"
  "\<not> has_unknown_flag switch_options [''on'', ''--hold-time'', ''-1'']"
  "\<not> invalid_state [''on'', ''--hold-time'', ''-1'']"
  by code_simp+

theorem rejected_before_hardware_witness:
  "(has_unknown_flag switch_options [''on'', ''--bogus''] \<or> invalid_state [''on'', ''--bogus'']) \<and>
   (has_unknown_flag control_options [''--cycles'', ''3'', ''-x''] \<or>
      invalid_initial_state [''--cycles'', ''3'', ''-x'']) \<and>
   (has_unknown_flag switch_options [''--active-low'', ''ON''] \<or>
      invalid_state [''--active-low'', ''ON'']) \<and>
   (has_unknown_flag control_options [''--initial-state'', ''maybe''] \<or>
      invalid_initial_state [''--initial-state'', ''maybe'']) \<and>
   fst (relay_switch_main no_numbers [''on'', ''--bogus''] [Wakes]) = [] \<and>
   fst (relay_control_main no_numbers [''--cycles'', ''3'', ''-x''] [Wakes]) = [] \<and>
   fst (relay_switch_main no_numbers [''--active-low'', ''ON''] [Wakes]) = [] \<and>
   fst (relay_control_main no_numbers [''--initial-state'', ''maybe''] [Wakes]) = []"
proof -
  note flags = rejected_before_hardware [where B = no_numbers and env = "[Wakes]" and env' = "[Wakes]"
      and argv = "[''on'', ''--bogus'']" and argv' = "[''--cycles'', ''3'', ''-x'']"]
  note states = rejected_before_hardware [where B = no_numbers and env = "[Wakes]" and env' = "[Wakes]"
      and argv = "[''--active-low'', ''ON'']" and argv' = "[''--initial-state'', ''maybe'']"]
  from flags states unknown_flag_examples(1-4) show ?thesis
    by auto
qed

lemma accepted_examples:
  "parse_args (switch_parser B) [''on''] =
     Inr \<lparr>state = Some ''on'', sw_active_high = True, hold_time = Finite 0\<rparr>"
  "parse_args (switch_parser B) [''--active-low'', ''off''] =
     Inr \<lparr>state = Some ''off'', sw_active_high = False, hold_time = Finite 0\<rparr>"
  "parse_args (control_parser B) [] =
     Inr \<lparr>on_time = Finite 2, off_time = Finite 2, cycles = 0, initial_state = ''off'',
          active_high = True\<rparr>"
  "parse_args (control_parser B) [''--initial-state'', ''on'', ''--active-low''] =
     Inr \<lparr>on_time = Finite 2, off_time = Finite 2, cycles = 0, initial_state = ''on'',
          active_high = False\<rparr>"
  by (simp_all add: parse_args_def switch_parser_def control_parser_def switch_options_def
        control_options_def parse_optional_def state_action_def)

lemma negative_hold_time_accepted:
  "py_float B ''-1'' = Some (Finite (- 1)) \<Longrightarrow>
   parse_args (switch_parser B) [''on'', ''--hold-time'', ''-1''] =
     Inr \<lparr>state = Some ''on'', sw_active_high = True, hold_time = Finite (- 1)\<rparr>"
  by (simp add: parse_args_def switch_parser_def switch_options_def parse_optional_def
        state_action_def partition_eq_def option_tuples_def starts_with_def looks_negative_def
        is_digit_def)

end
